theory Spec2Isabelle
  imports Complex_Main "HOL-Library.Word" "HOL-Library.Multiset"
begin

section \<open>Data model of \<open>continuous_batching/library/src/sequence_group.hpp\<close>\<close>

text \<open>
  \<open>size_t\<close> and \<open>uint64_t\<close> counters and ids are 64-bit words, so that \<open>+=\<close>,
  \<open>-=\<close> and \<open>++\<close> wrap as in C++. Token ids (\<open>int64_t\<close>) are 64-bit words too; no
  arithmetic is done on them. The size of a \<open>std::vector\<close> is the length of the list
  (a \<open>nat\<close>): a vector's size always fits \<open>size_t\<close>.

  \<open>float\<close> is the type variable \<open>'f\<close>. The operators the code applies to floats
  (\<open>0.0f\<close>, \<open>+=\<close>, \<open>/\<close>, \<open>>\<close>) are those of the syntactic classes \<open>zero\<close>, \<open>plus\<close>,
  \<open>inverse\<close> and \<open>ord\<close>, which assume no law; \<open>std::pow\<close> and the conversion of a
  \<open>size_t\<close> to \<open>float\<close> are parameters. Every theorem therefore holds for each
  interpretation of these operations, IEEE-754 binary32 among them.
\<close>

type_synonym u64 = "64 word"
type_synonym TokenIds = "64 word list"

datatype SequenceStatus = RUNNING | FINISHED

text \<open>
  \<open>AssertionFailed\<close> is the exception of a failed \<open>OPENVINO_ASSERT\<close>;
  \<open>Undefined\<close> stands for behaviour that C++ leaves undefined: a read past the end
  of a vector, the use of an object that does not exist, a sort with a comparator
  that does not order its elements.
\<close>

datatype error = AssertionFailed | Undefined

text \<open>\<open>struct GenerationOutput\<close> of \<open>generation_handle.hpp\<close>.\<close>

record 'f GenerationOutput =
  parent_id :: u64
  token_id :: "64 word"
  cumulative_log_prob :: 'f

text \<open>\<open>using GenerationOutputs = std::unordered_map<uint64_t, GenerationOutput>\<close>.\<close>

type_synonym 'f GenerationOutputs = "u64 \<rightharpoonup> 'f GenerationOutput"

text \<open>
  Modelled from the spec: \<open>generation_stream.hpp\<close> is not among the sources. Section 4.4
  describes the stream as a strict FIFO of per-iteration outputs that never drops one:
  a list, to which \<open>push\<close> appends.
\<close>

type_synonym 'f GenerationStream = "'f GenerationOutputs list"

definition push :: "'f GenerationOutputs \<Rightarrow> 'f GenerationStream \<Rightarrow> 'f GenerationStream" where
  "push outputs stream = stream @ [outputs]"

text \<open>
  Modelled from the spec: \<open>generation_config.hpp\<close> is not among the sources. The only
  field the code reads is \<open>length_penalty\<close> (a float, section 6).
\<close>

record 'f GenerationConfig =
  length_penalty :: 'f

text \<open>
  \<open>class Sequence\<close>. The member \<open>m_generation_stream\<close> is a shared pointer to the
  stream of the owning group, which no method of \<open>Sequence\<close> reads; the stream is a
  field of the group below.
\<close>

record 'f Sequence =
  m_generated_ids :: TokenIds
  m_parent_id :: u64
  m_id :: u64
  m_status :: SequenceStatus
  m_cumulative_log_prob :: 'f

text \<open>
  \<open>class SequenceGroup\<close>. The group holds its sequences through shared pointers; here
  it holds their values, in the order of \<open>m_sequences\<close>.
\<close>

record 'f SequenceGroup =
  m_request_id :: u64
  m_sequences :: "'f Sequence list"
  m_sampling_params :: "'f GenerationConfig"
  m_block_size :: u64
  m_prompt_ids :: TokenIds
  m_generation_stream :: "'f GenerationStream"
  m_num_processed_tokens :: u64
  m_num_scheduled_tokens :: u64
  m_max_content_len :: u64

section \<open>Sequences\<close>

text \<open>
  The function-local \<open>static uint64_t m_counter = 1\<close> is threaded as state:
  \<open>_get_next_sequence_id\<close> returns the id and the incremented counter.
\<close>

definition initial_counter :: u64 where
  "initial_counter = 1"

definition get_next_sequence_id :: "u64 \<Rightarrow> u64 \<times> u64" where
  "get_next_sequence_id m_counter = (m_counter, m_counter + 1)"

text \<open>\<open>Sequence::create\<close>: every member takes its default initialiser.\<close>

definition create :: "u64 \<Rightarrow> ('f::zero) Sequence \<times> u64" where
  "create m_counter =
     (let (next_id, m_counter') = get_next_sequence_id m_counter
      in (\<lparr>m_generated_ids = [], m_parent_id = 0, m_id = next_id,
           m_status = RUNNING, m_cumulative_log_prob = 0\<rparr>, m_counter'))"

text \<open>
  \<open>Sequence::fork\<close>: the copying constructor leaves \<open>m_id\<close> to its default
  initialiser, so the copy draws a fresh id, and then asserts that it differs from
  the id of the original.
\<close>

definition fork :: "'f Sequence \<Rightarrow> u64 \<Rightarrow> error + ('f Sequence \<times> u64)" where
  "fork seq m_counter =
     (let (next_id, m_counter') = get_next_sequence_id m_counter
      in if m_id seq \<noteq> next_id
         then Inr (\<lparr>m_generated_ids = m_generated_ids seq, m_parent_id = m_id seq,
                    m_id = next_id, m_status = m_status seq,
                    m_cumulative_log_prob = m_cumulative_log_prob seq\<rparr>, m_counter')
         else Inl AssertionFailed)"

definition get_id :: "'f Sequence \<Rightarrow> u64" where
  "get_id seq = m_id seq"

definition has_finished :: "'f Sequence \<Rightarrow> bool" where
  "has_finished seq \<longleftrightarrow> m_status seq = FINISHED"

definition is_running :: "'f Sequence \<Rightarrow> bool" where
  "is_running seq \<longleftrightarrow> m_status seq = RUNNING"

definition set_status :: "SequenceStatus \<Rightarrow> 'f Sequence \<Rightarrow> 'f Sequence" where
  "set_status status seq = seq\<lparr>m_status := status\<rparr>"

definition append_token :: "64 word \<Rightarrow> 'f \<Rightarrow> ('f::plus) Sequence \<Rightarrow> 'f Sequence" where
  "append_token token log_prob seq =
     seq\<lparr>m_cumulative_log_prob := m_cumulative_log_prob seq + log_prob,
         m_generated_ids := m_generated_ids seq @ [token]\<rparr>"

definition get_generated_len :: "'f Sequence \<Rightarrow> nat" where
  "get_generated_len seq = length (m_generated_ids seq)"

definition get_generated_ids :: "'f Sequence \<Rightarrow> TokenIds" where
  "get_generated_ids seq = m_generated_ids seq"

definition get_cumulative_log_probs :: "'f Sequence \<Rightarrow> 'f" where
  "get_cumulative_log_probs seq = m_cumulative_log_prob seq"

text \<open>
  \<open>get_last_generation_output\<close> reads \<open>m_generated_ids[size - 1]\<close>, which is out of
  range on an empty vector.
\<close>

definition get_last_generation_output :: "'f Sequence \<Rightarrow> error + 'f GenerationOutput" where
  "get_last_generation_output seq =
     (if m_generated_ids seq = [] then Inl Undefined
      else Inr \<lparr>parent_id = m_parent_id seq,
                 token_id = m_generated_ids seq ! (length (m_generated_ids seq) - 1),
                 cumulative_log_prob = m_cumulative_log_prob seq\<rparr>)"

text \<open>\<open>remove_tokens\<close> erases the last \<open>n\<close> elements (the argument \<open>count\<close>), after asserting there are as many.\<close>

definition remove_tokens :: "nat \<Rightarrow> 'f Sequence \<Rightarrow> error + 'f Sequence" where
  "remove_tokens n seq =
     (if length (m_generated_ids seq) \<ge> n
      then Inr (seq\<lparr>m_generated_ids :=
                  take (length (m_generated_ids seq) - n) (m_generated_ids seq)\<rparr>)
      else Inl AssertionFailed)"

text \<open>
  \<open>get_beam_search_score\<close>: the generated length is converted to \<open>float\<close>
  (\<open>to_float\<close>), raised to the length penalty (\<open>fpow\<close> for \<open>std::pow\<close>), and divides the
  cumulative log-probability.
\<close>

definition get_beam_search_score ::
  "(nat \<Rightarrow> 'f) \<Rightarrow> ('f \<Rightarrow> 'f \<Rightarrow> 'f) \<Rightarrow> 'f GenerationConfig \<Rightarrow> ('f::inverse) Sequence \<Rightarrow> 'f" where
  "get_beam_search_score to_float fpow sampling_params seq =
     (let cumulative_log_prob = get_cumulative_log_probs seq;
          current_length = to_float (get_generated_len seq);
          score = cumulative_log_prob / fpow current_length (length_penalty sampling_params)
      in score)"

section \<open>Sequence groups\<close>

text \<open>
  The public constructor from \<open>TokenIds\<close> wraps them in a tensor and delegates to the
  constructor from a tensor, which delegates to the private one (request id, sampling
  parameters, block size, a fresh stream), adds one created sequence and copies the
  tensor's elements into \<open>m_prompt_ids\<close>. The tensor is the list of its elements.
\<close>

definition add_sequence :: "'f Sequence \<Rightarrow> 'f SequenceGroup \<Rightarrow> 'f SequenceGroup" where
  "add_sequence sequence g = g\<lparr>m_sequences := m_sequences g @ [sequence]\<rparr>"

definition SequenceGroup_private ::
  "u64 \<Rightarrow> 'f GenerationConfig \<Rightarrow> u64 \<Rightarrow> 'f SequenceGroup" where
  "SequenceGroup_private request_id sampling_params block_size =
     \<lparr>m_request_id = request_id, m_sequences = [], m_sampling_params = sampling_params,
      m_block_size = block_size, m_prompt_ids = [], m_generation_stream = [],
      m_num_processed_tokens = 0, m_num_scheduled_tokens = 0, m_max_content_len = 0\<rparr>"

definition SequenceGroup_new ::
  "u64 \<Rightarrow> TokenIds \<Rightarrow> 'f GenerationConfig \<Rightarrow> u64 \<Rightarrow> u64 \<Rightarrow> ('f::zero) SequenceGroup \<times> u64" where
  "SequenceGroup_new request_id input_ids sampling_params block_size m_counter =
     (let g0 = SequenceGroup_private request_id sampling_params block_size;
          (seq, m_counter') = create m_counter;
          g1 = add_sequence seq g0
      in (g1\<lparr>m_prompt_ids := take (length input_ids) input_ids\<rparr>, m_counter'))"

definition get_prompt_ids :: "'f SequenceGroup \<Rightarrow> TokenIds" where
  "get_prompt_ids g = m_prompt_ids g"

definition get_prompt_len :: "'f SequenceGroup \<Rightarrow> nat" where
  "get_prompt_len g = length (m_prompt_ids g)"

definition get_num_scheduled_tokens :: "'f SequenceGroup \<Rightarrow> u64" where
  "get_num_scheduled_tokens g = m_num_scheduled_tokens g"

definition get_num_processed_tokens :: "'f SequenceGroup \<Rightarrow> u64" where
  "get_num_processed_tokens g = m_num_processed_tokens g"

text \<open>\<open>fork_sequence\<close> appends the fork of a sequence to the group.\<close>

definition fork_sequence ::
  "'f Sequence \<Rightarrow> ('f SequenceGroup \<times> u64) \<Rightarrow> error + ('f SequenceGroup \<times> u64)" where
  "fork_sequence sequence st =
     (case fork sequence (snd st) of
        Inl e \<Rightarrow> Inl e
      | Inr (child, m_counter') \<Rightarrow> Inr (add_sequence child (fst st), m_counter'))"

text \<open>
  The loop of \<open>preempt_tokens\<close> over the sequences: each loses its last
  \<open>min(num_preempt_tokens, generated_len)\<close> tokens; an assertion that fails in
  \<open>remove_tokens\<close> ends the loop.
\<close>

fun remove_tokens_all :: "nat \<Rightarrow> 'f Sequence list \<Rightarrow> error + 'f Sequence list" where
  "remove_tokens_all n [] = Inr []"
| "remove_tokens_all n (seq # seqs) =
     (case remove_tokens (min n (get_generated_len seq)) seq of
        Inl e \<Rightarrow> Inl e
      | Inr seq' \<Rightarrow>
          (case remove_tokens_all n seqs of
             Inl e \<Rightarrow> Inl e
           | Inr seqs' \<Rightarrow> Inr (seq' # seqs')))"

definition preempt_tokens :: "u64 \<Rightarrow> 'f SequenceGroup \<Rightarrow> error + 'f SequenceGroup" where
  "preempt_tokens num_preempt_tokens g =
     (if num_preempt_tokens \<le> m_num_processed_tokens g
      then (case remove_tokens_all (unat num_preempt_tokens) (m_sequences g) of
              Inl e \<Rightarrow> Inl e
            | Inr seqs' \<Rightarrow>
                Inr (g\<lparr>m_num_processed_tokens := m_num_processed_tokens g - num_preempt_tokens,
                       m_max_content_len := m_max_content_len g - num_preempt_tokens,
                       m_sequences := seqs'\<rparr>))
      else Inl AssertionFailed)"

definition schedule_tokens :: "u64 \<Rightarrow> 'f SequenceGroup \<Rightarrow> 'f SequenceGroup" where
  "schedule_tokens num_tokens g = g\<lparr>m_num_scheduled_tokens := num_tokens\<rparr>"

definition clear_scheduled_tokens :: "'f SequenceGroup \<Rightarrow> 'f SequenceGroup" where
  "clear_scheduled_tokens g = g\<lparr>m_num_scheduled_tokens := 0\<rparr>"

definition finish_iteration :: "'f SequenceGroup \<Rightarrow> 'f SequenceGroup" where
  "finish_iteration g =
     (let g1 = g\<lparr>m_num_processed_tokens := m_num_processed_tokens g + m_num_scheduled_tokens g\<rparr>;
          g2 = g1\<lparr>m_max_content_len := max (m_max_content_len g1) (m_num_processed_tokens g1)\<rparr>
      in clear_scheduled_tokens g2)"

text \<open>
  \<open>std::sort\<close> belongs to the C++ standard library. Its comparator must be a strict
  weak ordering of the elements sorted; otherwise the behaviour is undefined. Where it
  is defined, the result is the sorted permutation built by insertion.
\<close>

definition strict_weak_ordering :: "('a \<Rightarrow> 'a \<Rightarrow> bool) \<Rightarrow> 'a list \<Rightarrow> bool" where
  "strict_weak_ordering cmp xs \<longleftrightarrow>
     (\<forall>a\<in>set xs. \<not> cmp a a) \<and>
     (\<forall>a\<in>set xs. \<forall>b\<in>set xs. \<forall>c\<in>set xs. cmp a b \<and> cmp b c \<longrightarrow> cmp a c) \<and>
     (\<forall>a\<in>set xs. \<forall>b\<in>set xs. \<forall>c\<in>set xs.
        \<not> cmp a b \<and> \<not> cmp b a \<and> \<not> cmp b c \<and> \<not> cmp c b \<longrightarrow> \<not> cmp a c \<and> \<not> cmp c a)"

fun insert_by :: "('a \<Rightarrow> 'a \<Rightarrow> bool) \<Rightarrow> 'a \<Rightarrow> 'a list \<Rightarrow> 'a list" where
  "insert_by cmp x [] = [x]"
| "insert_by cmp x (y # ys) = (if cmp x y then x # y # ys else y # insert_by cmp x ys)"

definition std_sort :: "('a \<Rightarrow> 'a \<Rightarrow> bool) \<Rightarrow> 'a list \<Rightarrow> error + 'a list" where
  "std_sort cmp xs =
     (if strict_weak_ordering cmp xs then Inr (foldr (insert_by cmp) xs []) else Inl Undefined)"

text \<open>
  \<open>get_finished_sequences\<close> collects the finished sequences in the order of
  \<open>m_sequences\<close> and sorts them with the comparator
  \<open>s1->get_beam_search_score(...) > s2->get_beam_search_score(...)\<close>.
\<close>

definition get_finished_sequences ::
  "(nat \<Rightarrow> 'f) \<Rightarrow> ('f \<Rightarrow> 'f \<Rightarrow> 'f) \<Rightarrow> ('f::{inverse,ord}) SequenceGroup \<Rightarrow> error + 'f Sequence list" where
  "get_finished_sequences to_float fpow g =
     (let finished_seqs = filter has_finished (m_sequences g)
      in std_sort (\<lambda>s1 s2. get_beam_search_score to_float fpow (m_sampling_params g) s1
                            > get_beam_search_score to_float fpow (m_sampling_params g) s2)
           finished_seqs)"

text \<open>
  \<open>notify_handle\<close>. \<open>std::unordered_map::emplace\<close> inserts only where the key is
  absent. The loop gathers the last output of every sequence with a generated token;
  a non-empty map is pushed to the stream.
\<close>

definition emplace :: "'k \<Rightarrow> 'v \<Rightarrow> ('k \<rightharpoonup> 'v) \<Rightarrow> ('k \<rightharpoonup> 'v)" where
  "emplace k v m = (case m k of None \<Rightarrow> m(k \<mapsto> v) | Some _ \<Rightarrow> m)"

fun notify_outputs ::
  "'f Sequence list \<Rightarrow> 'f GenerationOutputs \<Rightarrow> error + 'f GenerationOutputs" where
  "notify_outputs [] outputs = Inr outputs"
| "notify_outputs (sequence # rest) outputs =
     (if get_generated_len sequence > 0
      then (case get_last_generation_output sequence of
              Inl e \<Rightarrow> Inl e
            | Inr out \<Rightarrow> notify_outputs rest (emplace (get_id sequence) out outputs))
      else notify_outputs rest outputs)"

definition notify_handle :: "'f SequenceGroup \<Rightarrow> error + 'f SequenceGroup" where
  "notify_handle g =
     (case notify_outputs (m_sequences g) Map.empty of
        Inl e \<Rightarrow> Inl e
      | Inr outputs \<Rightarrow>
          Inr (if outputs \<noteq> Map.empty
                then g\<lparr>m_generation_stream := push outputs (m_generation_stream g)\<rparr>
                else g))"

subsection \<open>Runs of operations\<close>

text \<open>The four counter operations of a group, applied one after the other.\<close>

datatype group_op =
  Schedule_tokens u64 | Finish_iteration | Preempt_tokens u64 | Clear_scheduled_tokens

fun apply_op :: "group_op \<Rightarrow> 'f SequenceGroup \<Rightarrow> error + 'f SequenceGroup" where
  "apply_op (Schedule_tokens n) g = Inr (schedule_tokens n g)"
| "apply_op Finish_iteration g = Inr (finish_iteration g)"
| "apply_op (Preempt_tokens k) g = preempt_tokens k g"
| "apply_op Clear_scheduled_tokens g = Inr (clear_scheduled_tokens g)"

fun run_ops :: "group_op list \<Rightarrow> 'f SequenceGroup \<Rightarrow> error + 'f SequenceGroup" where
  "run_ops [] g = Inr g"
| "run_ops (op # ops) g = (case apply_op op g of Inl e \<Rightarrow> Inl e | Inr g' \<Rightarrow> run_ops ops g')"

fun is_preempt :: "group_op \<Rightarrow> bool" where
  "is_preempt (Preempt_tokens k) = True"
| "is_preempt _ = False"

text \<open>
  The sequences of a process, in the order of their creation: each is created from
  scratch or forked from an earlier one, named by its position. The state is the
  counter and the sequences created so far.
\<close>

datatype creation = Create | Fork nat

fun run_creations ::
  "creation list \<Rightarrow> u64 \<times> ('f::zero) Sequence list \<Rightarrow> error + (u64 \<times> 'f Sequence list)" where
  "run_creations [] st = Inr st"
| "run_creations (Create # cs) (m_counter, seqs) =
     (case create m_counter of (seq, m_counter') \<Rightarrow> run_creations cs (m_counter', seqs @ [seq]))"
| "run_creations (Fork j # cs) (m_counter, seqs) =
     (if j < length seqs
      then (case fork (seqs ! j) m_counter of
              Inl e \<Rightarrow> Inl e
            | Inr (seq, m_counter') \<Rightarrow> run_creations cs (m_counter', seqs @ [seq]))
      else Inl Undefined)"

fun well_formed :: "creation list \<Rightarrow> nat \<Rightarrow> bool" where
  "well_formed [] n = True"
| "well_formed (Create # cs) n = well_formed cs (Suc n)"
| "well_formed (Fork j # cs) n = (j < n \<and> well_formed cs (Suc n))"

section \<open>The engine of \<open>continuous_batching/llm_engine.hpp\<close>\<close>

text \<open>
  \<open>llm_engine.hpp\<close> works on the \<open>Sequence\<close> and \<open>SequenceGroup\<close> of
  \<open>continuous_batching/sequence_group.hpp\<close>, an earlier version of the classes above:
  the group holds its sequences by value, a sequence has no parent id, a new sequence
  is \<open>WAITING\<close>, and the id counter starts at 0. Its names carry the suffix \<open>_v1\<close>.
  \<open>SamplingParameters\<close> (\<open>sampling_parameters.hpp\<close>, not among the sources) is the
  type variable \<open>'p\<close>.
\<close>

datatype SequenceStatus_v1 = WAITING | FINISHED_v1

record 'f Sequence_v1 =
  m_generated_ids_v1 :: TokenIds
  m_sequence_id_v1 :: u64
  m_status_v1 :: SequenceStatus_v1
  m_cumulative_log_prob_v1 :: 'f

record ('f, 'p) SequenceGroup_v1 =
  m_request_id_v1 :: u64
  m_sequences_v1 :: "'f Sequence_v1 list"
  m_sampling_params_v1 :: 'p
  m_prompt_ids_v1 :: TokenIds
  m_num_processed_tokens_v1 :: u64
  m_num_scheduled_tokens_v1 :: u64
  m_max_content_len_v1 :: u64

text \<open>
  \<open>struct GenerationResult\<close>; its member \<open>m_request_id\<close> is \<open>m_request_id_res\<close>
  here, apart from the member of the same name in the group.
\<close>

record 'f GenerationResult =
  m_request_id_res :: u64
  m_generation_ids :: "TokenIds list"
  m_cumulative_logprob :: 'f

definition initial_counter_v1 :: u64 where
  "initial_counter_v1 = 0"

definition get_next_sequence_id_v1 :: "u64 \<Rightarrow> u64 \<times> u64" where
  "get_next_sequence_id_v1 m_counter = (m_counter, m_counter + 1)"

text \<open>\<open>Sequence{}\<close>: every member takes its default initialiser.\<close>

definition Sequence_v1_new :: "u64 \<Rightarrow> ('f::zero) Sequence_v1 \<times> u64" where
  "Sequence_v1_new m_counter =
     (let (next_id, m_counter') = get_next_sequence_id_v1 m_counter
      in (\<lparr>m_generated_ids_v1 = [], m_sequence_id_v1 = next_id,
           m_status_v1 = WAITING, m_cumulative_log_prob_v1 = 0\<rparr>, m_counter'))"

definition has_finished_v1 :: "'f Sequence_v1 \<Rightarrow> bool" where
  "has_finished_v1 seq \<longleftrightarrow> m_status_v1 seq = FINISHED_v1"

definition get_generated_ids_v1 :: "'f Sequence_v1 \<Rightarrow> TokenIds" where
  "get_generated_ids_v1 seq = m_generated_ids_v1 seq"

text \<open>\<open>get_beam_search_scope\<close> (so spelt), marked \<open>TODO: implement\<close> in the source.\<close>

definition get_beam_search_scope :: "'f Sequence_v1 \<Rightarrow> 'f" where
  "get_beam_search_scope seq = m_cumulative_log_prob_v1 seq"

definition add_sequence_v1 ::
  "'f Sequence_v1 \<Rightarrow> ('f, 'p) SequenceGroup_v1 \<Rightarrow> ('f, 'p) SequenceGroup_v1" where
  "add_sequence_v1 sequence g = g\<lparr>m_sequences_v1 := m_sequences_v1 g @ [sequence]\<rparr>"

text \<open>
  Both public constructors delegate to the private one and add \<open>Sequence{}\<close>;
  neither reads its argument \<open>input_ids\<close>.
\<close>

definition SequenceGroup_v1_private :: "u64 \<Rightarrow> 'p \<Rightarrow> ('f, 'p) SequenceGroup_v1" where
  "SequenceGroup_v1_private request_id sampling_params =
     \<lparr>m_request_id_v1 = request_id, m_sequences_v1 = [], m_sampling_params_v1 = sampling_params,
      m_prompt_ids_v1 = [], m_num_processed_tokens_v1 = 0, m_num_scheduled_tokens_v1 = 0,
      m_max_content_len_v1 = 0\<rparr>"

definition SequenceGroup_v1_new ::
  "u64 \<Rightarrow> TokenIds \<Rightarrow> 'p \<Rightarrow> u64 \<Rightarrow> ('f::zero, 'p) SequenceGroup_v1 \<times> u64" where
  "SequenceGroup_v1_new request_id input_ids sampling_params m_counter =
     (let g0 = SequenceGroup_v1_private request_id sampling_params;
          (seq, m_counter') = Sequence_v1_new m_counter
      in (add_sequence_v1 seq g0, m_counter'))"

definition get_prompt_ids_v1 :: "('f, 'p) SequenceGroup_v1 \<Rightarrow> TokenIds" where
  "get_prompt_ids_v1 g = m_prompt_ids_v1 g"

definition get_request_id_v1 :: "('f, 'p) SequenceGroup_v1 \<Rightarrow> u64" where
  "get_request_id_v1 g = m_request_id_v1 g"

definition num_total_seqs_v1 :: "('f, 'p) SequenceGroup_v1 \<Rightarrow> nat" where
  "num_total_seqs_v1 g = length (m_sequences_v1 g)"

definition num_finished_seqs_v1 :: "('f, 'p) SequenceGroup_v1 \<Rightarrow> nat" where
  "num_finished_seqs_v1 g = length (filter has_finished_v1 (m_sequences_v1 g))"

definition num_running_seqs_v1 :: "('f, 'p) SequenceGroup_v1 \<Rightarrow> nat" where
  "num_running_seqs_v1 g = num_total_seqs_v1 g - num_finished_seqs_v1 g"

definition group_has_finished_v1 :: "('f, 'p) SequenceGroup_v1 \<Rightarrow> bool" where
  "group_has_finished_v1 g \<longleftrightarrow> num_running_seqs_v1 g = 0"

definition preempt_tokens_v1 ::
  "u64 \<Rightarrow> ('f, 'p) SequenceGroup_v1 \<Rightarrow> error + ('f, 'p) SequenceGroup_v1" where
  "preempt_tokens_v1 num_preempt_tokens g =
     (if num_preempt_tokens \<le> m_num_processed_tokens_v1 g
      then Inr (g\<lparr>m_num_processed_tokens_v1 := m_num_processed_tokens_v1 g - num_preempt_tokens\<rparr>)
      else Inl AssertionFailed)"

definition finish_iteration_v1 :: "('f, 'p) SequenceGroup_v1 \<Rightarrow> ('f, 'p) SequenceGroup_v1" where
  "finish_iteration_v1 g =
     (let g1 = g\<lparr>m_num_processed_tokens_v1 :=
                   m_num_processed_tokens_v1 g + m_num_scheduled_tokens_v1 g\<rparr>;
          g2 = g1\<lparr>m_max_content_len_v1 :=
                    max (m_max_content_len_v1 g1) (m_num_processed_tokens_v1 g1)\<rparr>
      in g2\<lparr>m_num_scheduled_tokens_v1 := 0\<rparr>)"

text \<open>
  \<open>GenerationResult::from_sequence_group\<close>: the loop runs \<open>sequence_id\<close> from 0 up to
  \<open>num_finished_seqs()\<close> and pushes the generated ids of \<open>sequence_group[sequence_id]\<close>,
  that is of the first \<open>num_finished_seqs()\<close> sequences in the order of \<open>m_sequences\<close>
  (the assertion of \<open>operator[]\<close> holds, as that number is at most the size). The
  cumulative log-probability is set to \<open>0.0f\<close> under the comment
  \<open>TODO: track this information\<close>.
\<close>

definition from_sequence_group ::
  "('f::zero, 'p) SequenceGroup_v1 \<Rightarrow> 'f GenerationResult" where
  "from_sequence_group sequence_group =
     \<lparr>m_request_id_res = get_request_id_v1 sequence_group,
      m_generation_ids =
        map get_generated_ids_v1
          (take (num_finished_seqs_v1 sequence_group) (m_sequences_v1 sequence_group)),
      m_cumulative_logprob = 0\<rparr>"

text \<open>
  The state of the engine: its requests and the id counter of \<open>Sequence\<close>. The
  scheduler, the cache manager, the model runner and the sampler are not among the
  sources: \<open>tick\<close> stands for all they do to the state in one step
  (\<open>schedule\<close>, \<open>copy_blocks\<close>, \<open>ModelRunner::step\<close>, \<open>Sampler::decode\<close>).
\<close>

record ('f, 'p) LLMEngine =
  m_requests :: "('f, 'p) SequenceGroup_v1 list"
  m_counter_v1 :: u64

text \<open>
  \<open>_free_finished_groups\<close> calls \<open>std::remove_if\<close> and drops its result: the vector
  keeps its size. The groups that have not finished move to the front, in order; of
  the elements behind them, a finished group stays as it is and a group that was
  moved away is left in its moved-from state (\<open>moved_from\<close>, which C++ does not
  specify).
\<close>

definition remove_if :: "('a \<Rightarrow> 'a) \<Rightarrow> ('a \<Rightarrow> bool) \<Rightarrow> 'a list \<Rightarrow> 'a list" where
  "remove_if moved_from pred xs =
     (let kept = filter (\<lambda>x. \<not> pred x) xs
      in kept @ map (\<lambda>x. if pred x then x else moved_from x) (drop (length kept) xs))"

definition free_finished_groups ::
  "(('f, 'p) SequenceGroup_v1 \<Rightarrow> ('f, 'p) SequenceGroup_v1) \<Rightarrow> ('f, 'p) LLMEngine \<Rightarrow> ('f, 'p) LLMEngine" where
  "free_finished_groups moved_from e =
     e\<lparr>m_requests := remove_if moved_from group_has_finished_v1 (m_requests e)\<rparr>"

definition add_request ::
  "u64 \<Rightarrow> TokenIds \<Rightarrow> 'p \<Rightarrow> ('f::zero, 'p) LLMEngine \<Rightarrow> ('f, 'p) LLMEngine" where
  "add_request request_id input_ids sampling_params e =
     (let (sequence_group, m_counter') =
            SequenceGroup_v1_new request_id input_ids sampling_params (m_counter_v1 e)
      in e\<lparr>m_requests := m_requests e @ [sequence_group], m_counter_v1 := m_counter'\<rparr>)"

definition step ::
  "(('f, 'p) LLMEngine \<Rightarrow> ('f, 'p) LLMEngine) \<Rightarrow>
   (('f, 'p) SequenceGroup_v1 \<Rightarrow> ('f, 'p) SequenceGroup_v1) \<Rightarrow>
   ('f::zero, 'p) LLMEngine \<Rightarrow> 'f GenerationResult list \<times> ('f, 'p) LLMEngine" where
  "step tick moved_from e =
     (let e1 = tick e;
          currently_finished_requests =
            map from_sequence_group (filter group_has_finished_v1 (m_requests e1))
      in (currently_finished_requests, free_finished_groups moved_from e1))"

definition has_unfinished_requests :: "('f, 'p) LLMEngine \<Rightarrow> bool" where
  "has_unfinished_requests e \<longleftrightarrow> (\<exists>g \<in> set (m_requests e). \<not> group_has_finished_v1 g)"

text \<open>
  \<open>generate\<close>: the requests are added with the ids \<open>0, 1, ...\<close>; the loop steps while a
  request is unfinished and may not end, in which case the result is \<open>None\<close>; the
  results are sorted with the comparator \<open>r1.m_request_id < r2.m_request_id\<close>.
\<close>

definition add_requests ::
  "TokenIds list \<Rightarrow> 'p list \<Rightarrow> ('f::zero, 'p) LLMEngine \<Rightarrow> ('f, 'p) LLMEngine" where
  "add_requests prompts sampling_params e =
     foldl (\<lambda>e' request_id.
              add_request (of_nat request_id) (prompts ! request_id)
                (sampling_params ! request_id) e')
       e [0..<length prompts]"

partial_function (option) generate_loop ::
  "(('f, 'p) LLMEngine \<Rightarrow> ('f, 'p) LLMEngine) \<Rightarrow>
   (('f, 'p) SequenceGroup_v1 \<Rightarrow> ('f, 'p) SequenceGroup_v1) \<Rightarrow>
   ('f::zero, 'p) LLMEngine \<Rightarrow> 'f GenerationResult list \<Rightarrow>
   ('f GenerationResult list \<times> ('f, 'p) LLMEngine) option" where
  "generate_loop tick moved_from e results =
     (if has_unfinished_requests e
      then generate_loop tick moved_from (snd (step tick moved_from e))
             (results @ fst (step tick moved_from e))
      else Some (results, e))"

declare generate_loop.simps [code]

definition generate ::
  "(('f, 'p) LLMEngine \<Rightarrow> ('f, 'p) LLMEngine) \<Rightarrow>
   (('f, 'p) SequenceGroup_v1 \<Rightarrow> ('f, 'p) SequenceGroup_v1) \<Rightarrow>
   TokenIds list \<Rightarrow> 'p list \<Rightarrow> ('f::zero, 'p) LLMEngine \<Rightarrow>
   (error + 'f GenerationResult list \<times> ('f, 'p) LLMEngine) option" where
  "generate tick moved_from prompts sampling_params e =
     (if length prompts = length sampling_params
      then (case generate_loop tick moved_from (add_requests prompts sampling_params e) [] of
              None \<Rightarrow> None
            | Some (results, e') \<Rightarrow>
                (case std_sort (\<lambda>r1 r2. m_request_id_res r1 < m_request_id_res r2) results of
                   Inl err \<Rightarrow> Some (Inl err)
                 | Inr sorted_results \<Rightarrow> Some (Inr (sorted_results, e'))))
      else Some (Inl AssertionFailed))"

section \<open>Example values\<close>

text \<open>
  Concrete inputs at which the theorems below are evaluated, with \<open>real\<close> standing
  for \<open>float\<close>, \<open>real\<close> for the conversion and \<open>powr\<close> for \<open>std::pow\<close>.
\<close>

definition example_params :: "real GenerationConfig" where
  "example_params = \<lparr>length_penalty = 1\<rparr>"

definition example_group :: "real SequenceGroup" where
  "example_group = fst (SequenceGroup_new 7 [5, 6, 7] example_params 16 initial_counter)"

text \<open>The group after its prompt of three tokens and two generated tokens were processed.\<close>

definition example_group_decoding :: "real SequenceGroup" where
  "example_group_decoding =
     example_group\<lparr>m_sequences :=
                     [append_token 9 (- 1) (append_token 8 (- 1) (hd (m_sequences example_group)))],
                   m_num_processed_tokens := 5, m_max_content_len := 5\<rparr>"

definition example_finished_seq :: "real Sequence" where
  "example_finished_seq =
     \<lparr>m_generated_ids = [8], m_parent_id = 0, m_id = 1, m_status = FINISHED,
      m_cumulative_log_prob = - 1\<rparr>"

definition example_finished_group :: "real SequenceGroup" where
  "example_finished_group = example_group\<lparr>m_sequences := [example_finished_seq]\<rparr>"

text \<open>
  A group after a fork: two finished beams and one still running.
\<close>

definition example_beam_group :: "real SequenceGroup" where
  "example_beam_group =
     example_group\<lparr>m_sequences :=
       [\<lparr>m_generated_ids = [8, 9], m_parent_id = 0, m_id = 1, m_status = FINISHED,
         m_cumulative_log_prob = - 4\<rparr>,
        \<lparr>m_generated_ids = [8], m_parent_id = 1, m_id = 2, m_status = RUNNING,
         m_cumulative_log_prob = - 1 / 2\<rparr>,
        \<lparr>m_generated_ids = [8, 7], m_parent_id = 1, m_id = 3, m_status = FINISHED,
         m_cumulative_log_prob = - 2\<rparr>]\<rparr>"

text \<open>
  For the engine: a finished group of two sequences, an engine without requests, and a
  stand-in for scheduler, model and sampler that, at each step, finishes the last
  unfinished request with the token 42, so that requests finish in the reverse of the
  order of their ids.
\<close>

definition example_group_v1 :: "(real, unit) SequenceGroup_v1" where
  "example_group_v1 =
     \<lparr>m_request_id_v1 = 0,
      m_sequences_v1 =
        [\<lparr>m_generated_ids_v1 = [10], m_sequence_id_v1 = 0, m_status_v1 = FINISHED_v1,
          m_cumulative_log_prob_v1 = - 2\<rparr>,
         \<lparr>m_generated_ids_v1 = [20], m_sequence_id_v1 = 1, m_status_v1 = FINISHED_v1,
          m_cumulative_log_prob_v1 = - 1\<rparr>],
      m_sampling_params_v1 = (), m_prompt_ids_v1 = [], m_num_processed_tokens_v1 = 0,
      m_num_scheduled_tokens_v1 = 0, m_max_content_len_v1 = 0\<rparr>"

text \<open>The group constructed from the request id 0 and the prompt \<open>[5, 6, 7]\<close>.\<close>

definition example_new_group_v1 :: "(real, unit) SequenceGroup_v1" where
  "example_new_group_v1 = fst (SequenceGroup_v1_new 0 [5, 6, 7] () initial_counter_v1)"

definition example_engine :: "(real, unit) LLMEngine" where
  "example_engine = \<lparr>m_requests = [], m_counter_v1 = initial_counter_v1\<rparr>"

definition finish_group :: "('f, 'p) SequenceGroup_v1 \<Rightarrow> ('f, 'p) SequenceGroup_v1" where
  "finish_group g =
     g\<lparr>m_sequences_v1 :=
         map (\<lambda>seq. seq\<lparr>m_generated_ids_v1 := m_generated_ids_v1 seq @ [42],
                          m_status_v1 := FINISHED_v1\<rparr>) (m_sequences_v1 g)\<rparr>"

fun finish_last :: "('f, 'p) SequenceGroup_v1 list \<Rightarrow> ('f, 'p) SequenceGroup_v1 list" where
  "finish_last [] = []"
| "finish_last (g # gs) =
     (if \<exists>h\<in>set gs. \<not> group_has_finished_v1 h then g # finish_last gs
      else finish_group g # gs)"

definition example_tick :: "('f, 'p) LLMEngine \<Rightarrow> ('f, 'p) LLMEngine" where
  "example_tick e = e\<lparr>m_requests := finish_last (m_requests e)\<rparr>"

section \<open>Auxiliary notions for the statements\<close>

text \<open>
  What \<open>get_last_generation_output\<close> returns where it is defined; \<open>notify_handle\<close>
  twice in succession; the entries under one key in the outputs of a stream.
\<close>

definition last_output :: "'f Sequence \<Rightarrow> 'f GenerationOutput" where
  "last_output seq =
     \<lparr>parent_id = m_parent_id seq, token_id = last (m_generated_ids seq),
      cumulative_log_prob = m_cumulative_log_prob seq\<rparr>"

definition notify_twice :: "'f SequenceGroup \<Rightarrow> error + 'f SequenceGroup" where
  "notify_twice g = (case notify_handle g of Inl e \<Rightarrow> Inl e | Inr g' \<Rightarrow> notify_handle g')"

definition stream_entries :: "u64 \<Rightarrow> 'f SequenceGroup \<Rightarrow> 'f GenerationOutput option list" where
  "stream_entries k g = map (\<lambda>outputs. outputs k) (m_generation_stream g)"

section \<open>Properties\<close>

lemma finish_iteration_fields:
  "m_num_processed_tokens (finish_iteration g) = m_num_processed_tokens g + m_num_scheduled_tokens g"
  "m_max_content_len (finish_iteration g) =
     max (m_max_content_len g) (m_num_processed_tokens g + m_num_scheduled_tokens g)"
  "m_num_scheduled_tokens (finish_iteration g) = 0"
  "m_sequences (finish_iteration g) = m_sequences g"
  by (simp_all add: finish_iteration_def clear_scheduled_tokens_def Let_def)

subsection \<open>Example values\<close>

lemma example_group_eq:
  "example_group =
     \<lparr>m_request_id = 7,
      m_sequences = [\<lparr>m_generated_ids = [], m_parent_id = 0, m_id = 1, m_status = RUNNING,
                      m_cumulative_log_prob = 0\<rparr>],
      m_sampling_params = \<lparr>length_penalty = 1\<rparr>, m_block_size = 16, m_prompt_ids = [5, 6, 7],
      m_generation_stream = [], m_num_processed_tokens = 0, m_num_scheduled_tokens = 0,
      m_max_content_len = 0\<rparr>"
  by (simp add: example_group_def SequenceGroup_new_def SequenceGroup_private_def create_def
      get_next_sequence_id_def initial_counter_def add_sequence_def example_params_def)

lemma example_group_decoding_eq:
  "example_group_decoding =
     \<lparr>m_request_id = 7,
      m_sequences = [\<lparr>m_generated_ids = [8, 9], m_parent_id = 0, m_id = 1, m_status = RUNNING,
                      m_cumulative_log_prob = - 2\<rparr>],
      m_sampling_params = \<lparr>length_penalty = 1\<rparr>, m_block_size = 16, m_prompt_ids = [5, 6, 7],
      m_generation_stream = [], m_num_processed_tokens = 5, m_num_scheduled_tokens = 0,
      m_max_content_len = 5\<rparr>"
  by (simp add: example_group_decoding_def example_group_eq append_token_def)

lemma example_finished_group_eq:
  "m_sequences example_finished_group =
     [\<lparr>m_generated_ids = [8], m_parent_id = 0, m_id = 1, m_status = FINISHED,
       m_cumulative_log_prob = - 1\<rparr>]"
  by (simp add: example_finished_group_def example_finished_seq_def)

subsection \<open>Preemption\<close>

lemma remove_tokens_all_Inr:
  "remove_tokens_all n seqs =
     Inr (map (\<lambda>seq. seq\<lparr>m_generated_ids :=
            take (get_generated_len seq - min n (get_generated_len seq)) (m_generated_ids seq)\<rparr>) seqs)"
  by (induction seqs) (simp_all add: remove_tokens_def get_generated_len_def)

text \<open>
  Claim C1. For every group and every \<open>k \<le> num_processed_tokens\<close>, \<open>preempt_tokens(k)\<close>
  succeeds, lowers \<open>num_processed_tokens\<close> by \<open>k\<close>, lowers \<open>max_content_len\<close> by \<open>k\<close>
  (in \<open>size_t\<close> arithmetic; as numbers too when \<open>k \<le> max_content_len\<close>, which
  \<open>num_processed_tokens \<le> max_content_len\<close> gives), and leaves every sequence of the
  group as it was but for its generated ids, which lose their last
  \<open>min(k, generated_len)\<close> tokens.
\<close>

theorem preempt_tokens_rolls_back:
  assumes "k \<le> m_num_processed_tokens g"
  shows "\<exists>g'. preempt_tokens k g = Inr g' \<and>
           m_num_processed_tokens g' = m_num_processed_tokens g - k \<and>
           unat (m_num_processed_tokens g') = unat (m_num_processed_tokens g) - unat k \<and>
           m_max_content_len g' = m_max_content_len g - k \<and>
           (k \<le> m_max_content_len g \<longrightarrow>
              unat (m_max_content_len g') = unat (m_max_content_len g) - unat k) \<and>
           m_sequences g' =
             map (\<lambda>seq. seq\<lparr>m_generated_ids :=
                    take (get_generated_len seq - min (unat k) (get_generated_len seq))
                      (m_generated_ids seq)\<rparr>) (m_sequences g)"
  using assms by (simp add: preempt_tokens_def remove_tokens_all_Inr unat_sub)

theorem preempt_tokens_rolls_back_witness:
  "(3::u64) \<le> m_num_processed_tokens example_group_decoding \<and>
   map m_generated_ids (m_sequences example_group_decoding) = [[8, 9]] \<and>
   (\<exists>g'. preempt_tokens 3 example_group_decoding = Inr g' \<and>
      m_num_processed_tokens g' = 2 \<and> m_max_content_len g' = 2 \<and>
      map m_generated_ids (m_sequences g') = [[]])"
proof -
  have h: "(3::u64) \<le> m_num_processed_tokens example_group_decoding"
    by (simp add: example_group_decoding_def)
  from preempt_tokens_rolls_back[OF h] obtain g' where
    "preempt_tokens 3 example_group_decoding = Inr g'"
    "m_num_processed_tokens g' = m_num_processed_tokens example_group_decoding - 3"
    "m_max_content_len g' = m_max_content_len example_group_decoding - 3"
    "m_sequences g' =
       map (\<lambda>seq. seq\<lparr>m_generated_ids :=
              take (get_generated_len seq - min (unat (3::u64)) (get_generated_len seq))
                (m_generated_ids seq)\<rparr>) (m_sequences example_group_decoding)"
    by blast
  then show ?thesis using h
    by (simp add: example_group_decoding_def example_group_eq append_token_def get_generated_len_def)
qed

text \<open>
  A group is constructed with \<open>num_processed_tokens = max_content_len = 0\<close>, and the
  counter operations keep \<open>num_processed_tokens \<le> max_content_len\<close>.
\<close>

lemma apply_op_keeps_processed_le_max:
  assumes "m_num_processed_tokens g \<le> m_max_content_len g" and "apply_op op g = Inr g'"
  shows "m_num_processed_tokens g' \<le> m_max_content_len g'"
proof (cases op)
  case (Preempt_tokens k)
  with assms(2) have k: "k \<le> m_num_processed_tokens g"
    and p: "m_num_processed_tokens g' = m_num_processed_tokens g - k"
    and m: "m_max_content_len g' = m_max_content_len g - k"
    by (auto simp: preempt_tokens_def split: if_splits sum.splits)
  from k assms(1) have "k \<le> m_max_content_len g" by simp
  with k assms(1) show ?thesis
    unfolding p m by (simp add: word_le_nat_alt unat_sub)
qed (use assms in \<open>auto simp: schedule_tokens_def clear_scheduled_tokens_def finish_iteration_fields\<close>)

lemma run_ops_keeps_processed_le_max:
  assumes "m_num_processed_tokens g \<le> m_max_content_len g" and "run_ops ops g = Inr g'"
  shows "m_num_processed_tokens g' \<le> m_max_content_len g'"
  using assms
proof (induction ops arbitrary: g)
  case Nil
  then show ?case by simp
next
  case (Cons op ops)
  from Cons.prems(2) obtain g1 where g1: "apply_op op g = Inr g1" and rest: "run_ops ops g1 = Inr g'"
    by (auto split: sum.splits)
  from apply_op_keeps_processed_le_max[OF Cons.prems(1) g1] rest show ?case
    by (rule Cons.IH)
qed

text \<open>
  In \<open>continuous_batching/sequence_group.hpp\<close> (and in
  \<open>llm_engine/lib/include/sequence_group.hpp\<close>, which has the same body),
  \<open>preempt_tokens\<close> only lowers \<open>num_processed_tokens\<close>
  (\<open>Note, that m_max_content_len is kept as is\<close>).
\<close>

lemma preempt_tokens_v1_keeps_max_content_len:
  "preempt_tokens_v1 k g = Inr g' \<Longrightarrow>
     m_max_content_len_v1 g' = m_max_content_len_v1 g \<and> m_sequences_v1 g' = m_sequences_v1 g"
  by (auto simp: preempt_tokens_v1_def split: if_splits)

subsection \<open>Finishing an iteration\<close>

text \<open>
  Claim C10. \<open>finish_iteration\<close> is idempotent: a second call in succession leaves the
  whole group, its three counters included, as the first call left it, the first call
  having set \<open>num_scheduled_tokens\<close> to zero. It holds for the group of
  \<open>library/src/sequence_group.hpp\<close> and for the group of
  \<open>continuous_batching/sequence_group.hpp\<close>.
\<close>

theorem finish_iteration_idempotent:
  "finish_iteration (finish_iteration g) = finish_iteration g \<and>
   m_num_scheduled_tokens (finish_iteration g) = 0 \<and>
   finish_iteration_v1 (finish_iteration_v1 h) = finish_iteration_v1 h \<and>
   m_num_scheduled_tokens_v1 (finish_iteration_v1 h) = 0"
  by (simp add: finish_iteration_def clear_scheduled_tokens_def finish_iteration_v1_def Let_def)

subsection \<open>Monotonicity of \<open>max_content_len\<close>\<close>

lemma run_ops_without_preempt:
  assumes "\<forall>op\<in>set ops. \<not> is_preempt op"
  shows "\<exists>g'. run_ops ops g = Inr g' \<and> m_max_content_len g \<le> m_max_content_len g'"
  using assms
proof (induction ops arbitrary: g)
  case Nil
  show ?case by simp
next
  case (Cons op ops)
  from Cons.prems have np: "\<not> is_preempt op" and rest: "\<forall>op\<in>set ops. \<not> is_preempt op"
    by simp_all
  from np obtain g1 where g1: "apply_op op g = Inr g1" "m_max_content_len g \<le> m_max_content_len g1"
    by (cases op) (simp_all add: schedule_tokens_def clear_scheduled_tokens_def finish_iteration_fields)
  from Cons.IH[OF rest, of g1] obtain g' where
    "run_ops ops g1 = Inr g'" "m_max_content_len g1 \<le> m_max_content_len g'" by blast
  with g1 show ?case by auto
qed

text \<open>
  Claim C4, as stated, fails: \<open>preempt_tokens\<close> is one of the operations it lists and
  lowers \<open>max_content_len\<close>. After three tokens were scheduled and the iteration
  finished, \<open>max_content_len\<close> is 3; after \<open>preempt_tokens(3)\<close> it is 0.
\<close>

theorem preempt_lowers_max_content_len:
  "map_sum id m_max_content_len (run_ops [Schedule_tokens 3, Finish_iteration] example_group) = Inr 3 \<and>
   map_sum id m_max_content_len
     (run_ops [Schedule_tokens 3, Finish_iteration, Preempt_tokens 3] example_group) = Inr 0"
  by (simp add: example_group_eq schedule_tokens_def finish_iteration_def clear_scheduled_tokens_def
      preempt_tokens_def remove_tokens_def get_generated_len_def Let_def)

text \<open>
  Claim C4, amended. Over any run of \<open>schedule_tokens\<close>, \<open>finish_iteration\<close> and
  \<open>clear_scheduled_tokens\<close> the run succeeds and \<open>max_content_len\<close> does not
  decrease (also when \<open>num_processed_tokens\<close> wraps around); a \<open>preempt_tokens(k)\<close>
  that succeeds lowers it by \<open>k\<close>.
\<close>

theorem max_content_len_monotone_without_preempt:
  assumes "\<forall>op\<in>set ops. \<not> is_preempt op"
  shows "(\<exists>g'. run_ops ops g = Inr g' \<and> m_max_content_len g \<le> m_max_content_len g') \<and>
         (\<forall>h'. preempt_tokens k h = Inr h' \<longrightarrow> m_max_content_len h' = m_max_content_len h - k)"
  using run_ops_without_preempt[OF assms, of g]
  by (auto simp: preempt_tokens_def split: if_splits sum.splits)

theorem max_content_len_monotone_without_preempt_witness:
  "\<exists>g'. run_ops [Schedule_tokens 3, Finish_iteration, Clear_scheduled_tokens, Schedule_tokens 2,
                 Finish_iteration] example_group = Inr g' \<and>
     m_max_content_len example_group \<le> m_max_content_len g' \<and>
     m_max_content_len g' = 5"
proof -
  have h: "\<forall>op\<in>set [Schedule_tokens 3, Finish_iteration, Clear_scheduled_tokens, Schedule_tokens 2,
                Finish_iteration]. \<not> is_preempt op"
    by simp
  from max_content_len_monotone_without_preempt[OF h, of example_group] obtain g' where
    run: "run_ops [Schedule_tokens 3, Finish_iteration, Clear_scheduled_tokens, Schedule_tokens 2,
            Finish_iteration] example_group = Inr g'"
    and le: "m_max_content_len example_group \<le> m_max_content_len g'"
    by blast
  from run have "m_max_content_len g' = 5"
    by (auto simp: example_group_eq schedule_tokens_def finish_iteration_def
        clear_scheduled_tokens_def Let_def)
  with run le show ?thesis by blast
qed

subsection \<open>Construction of a group\<close>

text \<open>
  The constructors of \<open>library/src/sequence_group.hpp\<close> (which also take the block
  size): the new group holds exactly one sequence, whose parent id is 0 and whose
  generated ids are empty, and \<open>get_prompt_ids\<close> returns the prompt token ids given.
  The constructor of \<open>llm_engine/lib/include/sequence_group.hpp\<close> copies the prompt
  with the same two statements.
\<close>

lemma SequenceGroup_new_state:
  "case SequenceGroup_new request_id input_ids sampling_params block_size m_counter of
     (g, m_counter') \<Rightarrow>
       (\<exists>seq. m_sequences g = [seq] \<and> m_parent_id seq = 0 \<and> m_generated_ids seq = []) \<and>
       get_prompt_ids g = input_ids"
  by (simp add: SequenceGroup_new_def SequenceGroup_private_def create_def get_next_sequence_id_def
      add_sequence_def get_prompt_ids_def)

text \<open>
  The constructors of \<open>continuous_batching/sequence_group.hpp\<close>, which take exactly a
  request id, the prompt token ids and the sampling parameters, and which
  \<open>add_request\<close> of \<open>llm_engine.hpp\<close> calls, never read \<open>input_ids\<close>: the new group
  holds one sequence without generated ids, but its prompt is empty whatever it was
  constructed with.
\<close>

lemma SequenceGroup_v1_new_drops_prompt:
  "get_prompt_ids_v1 (fst (SequenceGroup_v1_new request_id input_ids sampling_params m_counter)) = []"
  by (simp add: SequenceGroup_v1_new_def SequenceGroup_v1_private_def Sequence_v1_new_def
      get_next_sequence_id_v1_def add_sequence_v1_def get_prompt_ids_v1_def)

text \<open>
  Claim C7 is not met by the code of \<open>continuous_batching/sequence_group.hpp\<close>. The
  group constructed from the request id 0, the prompt token ids \<open>[5, 6, 7]\<close> and
  sampling parameters holds exactly one sequence, with no generated ids, but
  \<open>get_prompt_ids\<close> returns \<open>[]\<close>, not \<open>[5, 6, 7]\<close>, and the prompt length is 0; so
  does the group that \<open>add_request(0, [5, 6, 7], params)\<close> appends to the requests of
  the engine.
\<close>

theorem SequenceGroup_v1_new_loses_prompt:
  "map m_generated_ids_v1 (m_sequences_v1 example_new_group_v1) = [[]] \<and>
   get_prompt_ids_v1 example_new_group_v1 = [] \<and>
   get_prompt_ids_v1 example_new_group_v1 \<noteq> [5, 6, 7] \<and>
   map get_prompt_ids_v1 (m_requests (add_request 0 [5, 6, 7] () example_engine)) = [[]]"
  by (simp add: example_new_group_v1_def SequenceGroup_v1_new_def SequenceGroup_v1_private_def
      Sequence_v1_new_def get_next_sequence_id_v1_def add_sequence_v1_def get_prompt_ids_v1_def
      add_request_def example_engine_def initial_counter_v1_def)

subsection \<open>Notification of the handle\<close>

lemma get_last_generation_output_Inr:
  "0 < get_generated_len seq \<Longrightarrow> get_last_generation_output seq = Inr (last_output seq)"
  by (simp add: get_last_generation_output_def get_generated_len_def last_output_def last_conv_nth)

lemma notify_outputs_Inr:
  "notify_outputs seqs outputs =
     Inr (\<lambda>k. case outputs k of
                 Some v \<Rightarrow> Some v
               | None \<Rightarrow> map_option last_output
                           (find (\<lambda>seq. get_id seq = k \<and> 0 < get_generated_len seq) seqs))"
proof (induction seqs arbitrary: outputs)
  case Nil
  show ?case by (auto simp: fun_eq_iff split: option.splits)
next
  case (Cons seq seqs)
  show ?case
  proof (cases "0 < get_generated_len seq")
    case True
    show ?thesis
      using True
      by (auto simp: get_last_generation_output_Inr Cons.IH emplace_def fun_eq_iff
          split: option.splits)
  next
    case False
    then show ?thesis by (auto simp: Cons.IH fun_eq_iff split: option.splits)
  qed
qed

lemma find_distinct_id:
  assumes "distinct (map get_id seqs)" "seq \<in> set seqs"
  shows "find (\<lambda>s. get_id s = get_id seq \<and> P s) seqs = (if P seq then Some seq else None)"
  using assms
proof (induction seqs)
  case Nil
  then show ?case by simp
next
  case (Cons a seqs)
  show ?case
  proof (cases "a = seq")
    case True
    have "get_id seq \<notin> get_id ` set seqs" using Cons.prems(1) True by simp
    then have "find (\<lambda>s. get_id s = get_id seq \<and> P s) seqs = None"
      unfolding find_None_iff by (metis imageI)
    then show ?thesis using True by simp
  next
    case False
    then have in_rest: "seq \<in> set seqs" using Cons.prems(2) by simp
    have "get_id a \<noteq> get_id seq" using Cons.prems(1) in_rest by auto
    then show ?thesis using Cons.IH in_rest Cons.prems(1) by simp
  qed
qed

lemma notify_handle_sequences:
  "\<exists>g'. notify_handle g = Inr g' \<and> m_sequences g' = m_sequences g"
  by (simp add: notify_handle_def notify_outputs_Inr)

text \<open>
  Claim C5, as stated, fails: \<open>notify_handle\<close> keeps no record of what it pushed
  before. A group whose one sequence has generated the tokens 8 and 9 is notified
  twice in succession, no token being produced in between (the sequences after the
  first call are those before it): the second call pushes the entry of token 9 again.
\<close>

theorem notify_handle_repeats_last_token:
  "map_sum id (stream_entries 1) (notify_handle example_group_decoding) =
     Inr [Some \<lparr>parent_id = 0, token_id = 9, cumulative_log_prob = - 2\<rparr>] \<and>
   map_sum id m_sequences (notify_handle example_group_decoding) =
     Inr (m_sequences example_group_decoding) \<and>
   map_sum id (stream_entries 1) (notify_twice example_group_decoding) =
     Inr [Some \<lparr>parent_id = 0, token_id = 9, cumulative_log_prob = - 2\<rparr>,
          Some \<lparr>parent_id = 0, token_id = 9, cumulative_log_prob = - 2\<rparr>]"
proof -
  let ?out = "\<lparr>parent_id = 0, token_id = 9, cumulative_log_prob = - 2 :: real\<rparr>"
  have run: "notify_outputs (m_sequences example_group_decoding) Map.empty = Inr [1 \<mapsto> ?out]"
    by (simp add: example_group_decoding_eq get_generated_len_def get_last_generation_output_def
        get_id_def emplace_def)
  have first: "notify_handle example_group_decoding =
      Inr (example_group_decoding\<lparr>m_generation_stream := [[1 \<mapsto> ?out]]\<rparr>)"
    unfolding notify_handle_def run by (simp add: push_def example_group_decoding_eq)
  have second: "notify_handle (example_group_decoding\<lparr>m_generation_stream := [[1 \<mapsto> ?out]]\<rparr>) =
      Inr (example_group_decoding\<lparr>m_generation_stream := [[1 \<mapsto> ?out], [1 \<mapsto> ?out]]\<rparr>)"
    unfolding notify_handle_def using run by (simp add: push_def)
  show ?thesis
    by (simp add: notify_twice_def first second stream_entries_def)
qed

text \<open>
  Claim C5, amended. In a group whose sequences have distinct ids, \<open>notify_handle\<close>
  gathers one map of outputs, with an entry under the id of every sequence that has
  at least one generated token, holding its parent id, its last generated token and
  its cumulative log-probability, no entry for a sequence without generated tokens,
  and no other key; it pushes that map onto the stream of the group unless the map is
  empty, and changes nothing else.
\<close>

theorem notify_handle_snapshot:
  assumes "distinct (map get_id (m_sequences g))"
  shows "\<exists>outputs.
           notify_handle g =
             Inr (if outputs = Map.empty then g
                  else g\<lparr>m_generation_stream := m_generation_stream g @ [outputs]\<rparr>) \<and>
           (\<forall>seq\<in>set (m_sequences g).
              outputs (get_id seq) =
                (if 0 < get_generated_len seq
                 then Some \<lparr>parent_id = m_parent_id seq, token_id = last (m_generated_ids seq),
                            cumulative_log_prob = m_cumulative_log_prob seq\<rparr>
                 else None)) \<and>
           dom outputs \<subseteq> get_id ` set (m_sequences g)"
proof -
  define outputs where
    "outputs = (\<lambda>k. map_option last_output
                  (find (\<lambda>seq. get_id seq = k \<and> 0 < get_generated_len seq) (m_sequences g)))"
  have run: "notify_outputs (m_sequences g) Map.empty = Inr outputs"
    by (simp add: notify_outputs_Inr outputs_def)
  have handle: "notify_handle g =
      Inr (if outputs = Map.empty then g
           else g\<lparr>m_generation_stream := m_generation_stream g @ [outputs]\<rparr>)"
    by (simp add: notify_handle_def run push_def)
  have entries: "outputs (get_id seq) =
      (if 0 < get_generated_len seq then Some (last_output seq) else None)"
    if "seq \<in> set (m_sequences g)" for seq
    using find_distinct_id[OF assms that, of "\<lambda>s. 0 < get_generated_len s"]
    by (simp add: outputs_def)
  have keys: "dom outputs \<subseteq> get_id ` set (m_sequences g)"
  proof
    fix k assume "k \<in> dom outputs"
    then obtain seq where "find (\<lambda>seq. get_id seq = k \<and> 0 < get_generated_len seq) (m_sequences g) = Some seq"
      by (auto simp: outputs_def)
    then have "seq \<in> set (m_sequences g)" "get_id seq = k"
      by (auto simp: find_Some_iff)
    then show "k \<in> get_id ` set (m_sequences g)" by auto
  qed
  show ?thesis
    using handle entries keys unfolding last_output_def by blast
qed

theorem notify_handle_snapshot_witness:
  "distinct (map get_id (m_sequences example_group_decoding)) \<and>
   (\<exists>outputs.
      notify_handle example_group_decoding =
        Inr (example_group_decoding\<lparr>m_generation_stream := [outputs]\<rparr>) \<and>
      outputs 1 = Some \<lparr>parent_id = 0, token_id = 9, cumulative_log_prob = - 2\<rparr>)"
proof -
  have d: "distinct (map get_id (m_sequences example_group_decoding))"
    by (simp add: example_group_decoding_eq)
  from notify_handle_snapshot[OF d] obtain outputs where
    handle: "notify_handle example_group_decoding =
       Inr (if outputs = Map.empty then example_group_decoding
            else example_group_decoding\<lparr>m_generation_stream :=
                   m_generation_stream example_group_decoding @ [outputs]\<rparr>)"
    and entries: "\<forall>seq\<in>set (m_sequences example_group_decoding).
        outputs (get_id seq) =
          (if 0 < get_generated_len seq
           then Some \<lparr>parent_id = m_parent_id seq, token_id = last (m_generated_ids seq),
                      cumulative_log_prob = m_cumulative_log_prob seq\<rparr>
           else None)"
    by blast
  from entries have one: "outputs 1 = Some \<lparr>parent_id = 0, token_id = 9, cumulative_log_prob = - 2\<rparr>"
    by (simp add: example_group_decoding_eq get_id_def get_generated_len_def)
  then have "outputs \<noteq> Map.empty" by auto
  with handle one d show ?thesis
    by (auto simp: example_group_decoding_eq)
qed

subsection \<open>Finished sequences\<close>

text \<open>
  Claim C8, as stated, fails: neither \<open>append_token\<close> nor \<open>remove_tokens\<close> looks at
  the status. On a finished sequence with the generated ids \<open>[8]\<close> and the cumulative
  log-probability \<open>-1\<close>, \<open>append_token(9, -2)\<close> gives the ids \<open>[8, 9]\<close> and the
  log-probability \<open>-3\<close>, and \<open>remove_tokens(1)\<close> gives the ids \<open>[]\<close>.
\<close>

theorem append_token_on_finished:
  "has_finished example_finished_seq \<and>
   m_generated_ids example_finished_seq = [8] \<and>
   m_cumulative_log_prob example_finished_seq = - 1 \<and>
   m_generated_ids (append_token 9 (- 2) example_finished_seq) = [8, 9] \<and>
   m_cumulative_log_prob (append_token 9 (- 2) example_finished_seq) = - 3 \<and>
   map_sum id m_generated_ids (remove_tokens 1 example_finished_seq) = Inr []"
  by (simp add: example_finished_seq_def has_finished_def append_token_def remove_tokens_def)

text \<open>
  Claim C8, amended. For a finished sequence of a group, \<open>set_status\<close> leaves its
  generated ids and cumulative log-probability as they are, and \<open>schedule_tokens\<close>,
  \<open>clear_scheduled_tokens\<close>, \<open>finish_iteration\<close>, \<open>notify_handle\<close> and
  \<open>fork_sequence\<close> leave the sequence as it is. \<open>append_token\<close> and \<open>remove_tokens\<close>
  are not guarded by the status: on a finished sequence, which stays finished,
  \<open>append_token\<close> appends the token and adds the log-probability, and
  \<open>remove_tokens(c)\<close> with \<open>c \<le> generated_len\<close> removes the last \<open>c\<close> tokens.
\<close>

theorem finished_sequence_and_other_operations:
  assumes "i < length (m_sequences g)" and "has_finished (m_sequences g ! i)"
  shows "m_generated_ids (set_status status (m_sequences g ! i)) = m_generated_ids (m_sequences g ! i) \<and>
         m_cumulative_log_prob (set_status status (m_sequences g ! i)) =
           m_cumulative_log_prob (m_sequences g ! i) \<and>
         m_sequences (schedule_tokens n g) ! i = m_sequences g ! i \<and>
         m_sequences (clear_scheduled_tokens g) ! i = m_sequences g ! i \<and>
         m_sequences (finish_iteration g) ! i = m_sequences g ! i \<and>
         (\<exists>g'. notify_handle g = Inr g' \<and> m_sequences g' ! i = m_sequences g ! i) \<and>
         (\<forall>src st'. fork_sequence src (g, m_counter) = Inr st' \<longrightarrow>
            m_sequences (fst st') ! i = m_sequences g ! i) \<and>
         has_finished (append_token token log_prob (m_sequences g ! i)) \<and>
         m_generated_ids (append_token token log_prob (m_sequences g ! i)) =
           m_generated_ids (m_sequences g ! i) @ [token] \<and>
         m_cumulative_log_prob (append_token token log_prob (m_sequences g ! i)) =
           m_cumulative_log_prob (m_sequences g ! i) + log_prob \<and>
         (c \<le> get_generated_len (m_sequences g ! i) \<longrightarrow>
            map_sum id m_generated_ids (remove_tokens c (m_sequences g ! i)) =
              Inr (take (get_generated_len (m_sequences g ! i) - c)
                     (m_generated_ids (m_sequences g ! i))))"
proof -
  have fork: "m_sequences (fst st') ! i = m_sequences g ! i"
    if "fork_sequence src (g, m_counter) = Inr st'" for src st'
    using that assms(1)
    by (auto simp: fork_sequence_def add_sequence_def nth_append split: sum.splits)
  from notify_handle_sequences[of g] have notify:
    "\<exists>g'. notify_handle g = Inr g' \<and> m_sequences g' ! i = m_sequences g ! i"
    by auto
  show ?thesis
    using assms(2) fork notify
    by (simp add: set_status_def schedule_tokens_def clear_scheduled_tokens_def
        finish_iteration_fields has_finished_def append_token_def remove_tokens_def
        get_generated_len_def)
qed

theorem finished_sequence_and_other_operations_witness:
  "0 < length (m_sequences example_finished_group) \<and>
   has_finished (m_sequences example_finished_group ! 0) \<and>
   m_sequences (finish_iteration example_finished_group) ! 0 = example_finished_seq \<and>
   m_generated_ids (append_token 9 (- 2) (m_sequences example_finished_group ! 0)) = [8, 9]"
proof -
  have h1: "0 < length (m_sequences example_finished_group)"
    by (simp add: example_finished_group_def)
  have h2: "has_finished (m_sequences example_finished_group ! 0)"
    by (simp add: example_finished_group_def example_finished_seq_def has_finished_def)
  from finished_sequence_and_other_operations[OF h1 h2, of _ _ _ 9 "- 2"] h1 h2 show ?thesis
    by (simp add: example_finished_group_def example_finished_seq_def)
qed

subsection \<open>Sorting\<close>

lemma mset_insert_by: "mset (insert_by cmp x ys) = add_mset x (mset ys)"
  by (induction ys) simp_all

lemma mset_insertion: "mset (foldr (insert_by cmp) xs []) = mset xs"
  by (induction xs) (simp_all add: mset_insert_by)

lemma set_insert_by: "set (insert_by cmp x ys) = insert x (set ys)"
  by (induction ys) auto

lemma sorted_insert_by:
  assumes "\<forall>a\<in>insert x (set ys). \<forall>b\<in>insert x (set ys). cmp a b \<longrightarrow> \<not> cmp b a"
    and "\<forall>a\<in>insert x (set ys). \<forall>b\<in>insert x (set ys). \<forall>c\<in>insert x (set ys).
           cmp a b \<longrightarrow> cmp b c \<longrightarrow> cmp a c"
    and "sorted_wrt (\<lambda>a b. \<not> cmp b a) ys"
  shows "sorted_wrt (\<lambda>a b. \<not> cmp b a) (insert_by cmp x ys)"
  using assms
proof (induction ys)
  case Nil
  show ?case by simp
next
  case (Cons y ys)
  have asym: "\<And>a b. a \<in> insert x (insert y (set ys)) \<Longrightarrow> b \<in> insert x (insert y (set ys))
                \<Longrightarrow> cmp a b \<Longrightarrow> \<not> cmp b a"
    using Cons.prems(1) unfolding list.set by blast
  have trans: "\<And>a b c. a \<in> insert x (insert y (set ys)) \<Longrightarrow> b \<in> insert x (insert y (set ys))
                \<Longrightarrow> c \<in> insert x (insert y (set ys)) \<Longrightarrow> cmp a b \<Longrightarrow> cmp b c \<Longrightarrow> cmp a c"
    using Cons.prems(2) unfolding list.set by blast
  have tail: "sorted_wrt (\<lambda>a b. \<not> cmp b a) ys" and head: "\<And>z. z \<in> set ys \<Longrightarrow> \<not> cmp z y"
    using Cons.prems(3) by simp_all
  show ?case
  proof (cases "cmp x y")
    case True
    have nyx: "\<not> cmp y x"
      by (rule asym[OF _ _ True]) simp_all
    have nzx: "\<not> cmp z x" if z: "z \<in> set ys" for z
    proof
      assume zx: "cmp z x"
      have "cmp z y"
        by (rule trans[OF _ _ _ zx True]) (simp_all add: z)
      with head[OF z] show False by simp
    qed
    show ?thesis using True nyx nzx Cons.prems(3) by simp
  next
    case False
    have IH: "sorted_wrt (\<lambda>a b. \<not> cmp b a) (insert_by cmp x ys)"
    proof (rule Cons.IH)
      show "\<forall>a\<in>insert x (set ys). \<forall>b\<in>insert x (set ys). cmp a b \<longrightarrow> \<not> cmp b a"
        using asym by blast
      show "\<forall>a\<in>insert x (set ys). \<forall>b\<in>insert x (set ys). \<forall>c\<in>insert x (set ys).
              cmp a b \<longrightarrow> cmp b c \<longrightarrow> cmp a c"
        using trans by blast
      show "sorted_wrt (\<lambda>a b. \<not> cmp b a) ys" by (rule tail)
    qed
    have "\<not> cmp z y" if "z \<in> set (insert_by cmp x ys)" for z
      using that False head by (auto simp: set_insert_by)
    then show ?thesis using False IH by simp
  qed
qed

lemma set_insertion: "set (foldr (insert_by cmp) xs []) = set xs"
  by (induction xs) (simp_all add: set_insert_by)

lemma sorted_insertion:
  assumes "\<forall>a\<in>set xs. \<forall>b\<in>set xs. cmp a b \<longrightarrow> \<not> cmp b a"
    and "\<forall>a\<in>set xs. \<forall>b\<in>set xs. \<forall>c\<in>set xs. cmp a b \<longrightarrow> cmp b c \<longrightarrow> cmp a c"
  shows "sorted_wrt (\<lambda>a b. \<not> cmp b a) (foldr (insert_by cmp) xs [])"
  using assms
proof (induction xs)
  case Nil
  show ?case by simp
next
  case (Cons x xs)
  have asym: "\<forall>a\<in>insert x (set xs). \<forall>b\<in>insert x (set xs). cmp a b \<longrightarrow> \<not> cmp b a"
    using Cons.prems(1) unfolding list.set .
  have trans: "\<forall>a\<in>insert x (set xs). \<forall>b\<in>insert x (set xs). \<forall>c\<in>insert x (set xs).
                 cmp a b \<longrightarrow> cmp b c \<longrightarrow> cmp a c"
    using Cons.prems(2) unfolding list.set .
  have IH: "sorted_wrt (\<lambda>a b. \<not> cmp b a) (foldr (insert_by cmp) xs [])"
  proof (rule Cons.IH)
    show "\<forall>a\<in>set xs. \<forall>b\<in>set xs. cmp a b \<longrightarrow> \<not> cmp b a"
      using asym by blast
    show "\<forall>a\<in>set xs. \<forall>b\<in>set xs. \<forall>c\<in>set xs. cmp a b \<longrightarrow> cmp b c \<longrightarrow> cmp a c"
      using trans by blast
  qed
  have "sorted_wrt (\<lambda>a b. \<not> cmp b a) (insert_by cmp x (foldr (insert_by cmp) xs []))"
  proof (rule sorted_insert_by)
    show "\<forall>a\<in>insert x (set (foldr (insert_by cmp) xs [])).
            \<forall>b\<in>insert x (set (foldr (insert_by cmp) xs [])). cmp a b \<longrightarrow> \<not> cmp b a"
      unfolding set_insertion by (rule asym)
    show "\<forall>a\<in>insert x (set (foldr (insert_by cmp) xs [])).
            \<forall>b\<in>insert x (set (foldr (insert_by cmp) xs [])).
            \<forall>c\<in>insert x (set (foldr (insert_by cmp) xs [])). cmp a b \<longrightarrow> cmp b c \<longrightarrow> cmp a c"
      unfolding set_insertion by (rule trans)
    show "sorted_wrt (\<lambda>a b. \<not> cmp b a) (foldr (insert_by cmp) xs [])" by (rule IH)
  qed
  then show ?case by simp
qed

lemma std_sort_sorted:
  assumes "std_sort cmp xs = Inr ys"
  shows "mset ys = mset xs \<and> sorted_wrt (\<lambda>a b. \<not> cmp b a) ys"
proof -
  from assms have swo: "strict_weak_ordering cmp xs" and ys: "ys = foldr (insert_by cmp) xs []"
    by (auto simp: std_sort_def split: if_splits)
  have irrefl: "\<forall>a\<in>set xs. \<not> cmp a a"
    and trans: "\<forall>a\<in>set xs. \<forall>b\<in>set xs. \<forall>c\<in>set xs. cmp a b \<longrightarrow> cmp b c \<longrightarrow> cmp a c"
    using swo unfolding strict_weak_ordering_def by blast+
  have asym: "\<forall>a\<in>set xs. \<forall>b\<in>set xs. cmp a b \<longrightarrow> \<not> cmp b a"
    using irrefl trans by blast
  show ?thesis
    unfolding ys using sorted_insertion[OF asym trans] by (simp add: mset_insertion)
qed

lemma std_sort_defined:
  "strict_weak_ordering cmp xs \<Longrightarrow> \<exists>ys. std_sort cmp xs = Inr ys"
  by (simp add: std_sort_def)

lemma strict_weak_ordering_key:
  "strict_weak_ordering (\<lambda>a b. f a < (f b :: 'k::linorder)) xs"
  unfolding strict_weak_ordering_def
proof (intro conjI ballI impI)
  fix a b c assume "f a < f b \<and> f b < f c"
  then show "f a < f c" by (elim conjE) (rule less_trans)
next
  fix a b c assume "\<not> f a < f b \<and> \<not> f b < f a \<and> \<not> f b < f c \<and> \<not> f c < f b"
  then have "f a = f b" "f b = f c" by (meson not_less_iff_gr_or_eq)+
  then show "\<not> f a < f c" "\<not> f c < f a" by simp_all
qed simp

lemma strict_weak_ordering_key_desc:
  "strict_weak_ordering (\<lambda>a b. f a > (f b :: 'k::linorder)) xs"
  unfolding strict_weak_ordering_def
proof (intro conjI ballI impI)
  fix a b c assume "f b < f a \<and> f c < f b"
  then show "f c < f a" by (elim conjE) (rule less_trans)
next
  fix a b c assume "\<not> f b < f a \<and> \<not> f a < f b \<and> \<not> f c < f b \<and> \<not> f b < f c"
  then have "f a = f b" "f b = f c" by (meson not_less_iff_gr_or_eq)+
  then show "\<not> f c < f a" "\<not> f a < f c" by simp_all
qed simp

subsection \<open>Sequence ids\<close>

lemma unat_id_small:
  "k < 2 ^ 64 \<Longrightarrow> unat (of_nat k :: u64) = k"
  by (simp add: unat_of_nat)

lemma run_creations_ids:
  assumes "well_formed cs (length seqs)"
    and "length seqs + length cs < 2 ^ 64"
    and "map m_id seqs = map of_nat [1..<Suc (length seqs)]"
  shows "\<exists>seqs'. run_creations cs (of_nat (Suc (length seqs)), seqs) =
                   Inr (of_nat (Suc (length seqs + length cs)), seqs') \<and>
                 length seqs' = length seqs + length cs \<and>
                 map m_id seqs' = map of_nat [1..<Suc (length seqs + length cs)]"
  using assms
proof (induction cs arbitrary: seqs)
  case Nil
  then show ?case by simp
next
  case (Cons c cs)
  let ?n = "length seqs"
  show ?case
  proof (cases c)
    case Create
    obtain seq :: "'a Sequence" where seq: "create (of_nat (Suc ?n)) = (seq, of_nat (Suc (Suc ?n)))"
      and id: "m_id seq = of_nat (Suc ?n)"
      by (simp add: create_def get_next_sequence_id_def)
    have wf: "well_formed cs (length (seqs @ [seq]))" using Cons.prems(1) Create by simp
    have bound: "length (seqs @ [seq]) + length cs < 2 ^ 64" using Cons.prems(2) by simp
    have ids: "map m_id (seqs @ [seq]) = map of_nat [1..<Suc (length (seqs @ [seq]))]"
      using Cons.prems(3) id by simp
    from Cons.IH[OF wf bound ids] show ?thesis
      using Create seq by simp
  next
    case (Fork j)
    have j: "j < ?n" and wf': "well_formed cs (Suc ?n)" using Cons.prems(1) Fork by simp_all
    have "m_id (seqs ! j) = map m_id seqs ! j" using j by simp
    also have "\<dots> = of_nat (Suc j)" using j by (simp add: Cons.prems(3) del: upt_Suc)
    finally have parent: "m_id (seqs ! j) = of_nat (Suc j)" .
    have "unat (of_nat (Suc j) :: u64) = Suc j" "unat (of_nat (Suc ?n) :: u64) = Suc ?n"
      using j Cons.prems(2) by (simp_all add: unat_id_small del: of_nat_Suc)
    then have ne: "m_id (seqs ! j) \<noteq> of_nat (Suc ?n)"
      using j parent by (metis Suc_inject nat_neq_iff)
    obtain seq where seq: "fork (seqs ! j) (of_nat (Suc ?n)) = Inr (seq, of_nat (Suc (Suc ?n)))"
      and id: "m_id seq = of_nat (Suc ?n)"
      using ne by (simp add: fork_def get_next_sequence_id_def)
    have wf: "well_formed cs (length (seqs @ [seq]))" using wf' by simp
    have bound: "length (seqs @ [seq]) + length cs < 2 ^ 64" using Cons.prems(2) by simp
    have ids: "map m_id (seqs @ [seq]) = map of_nat [1..<Suc (length (seqs @ [seq]))]"
      using Cons.prems(3) id by simp
    from Cons.IH[OF wf bound ids] show ?thesis
      using Fork seq j by simp
  qed
qed

lemma unat_ids:
  assumes "n < 2 ^ 64"
  shows "map unat (map of_nat [1..<Suc n] :: u64 list) = [1..<Suc n]"
proof -
  have "\<forall>k\<in>set [1..<Suc n]. unat (of_nat k :: u64) = k"
    using assms by (auto intro!: unat_id_small)
  then have "map (\<lambda>k. unat (of_nat k :: u64)) [1..<Suc n] = map (\<lambda>k. k) [1..<Suc n]"
    by (intro map_cong) auto
  then show ?thesis by (simp add: comp_def)
qed

text \<open>
  Claim C6. The sequences of a process are created one after the other, from scratch or
  by fork of an earlier one, starting with the counter at 1. As long as fewer than
  \<open>2^64\<close> sequences have been created (the counter is a \<open>uint64_t\<close>), every creation
  succeeds, the assertion of the copying constructor included, and the ids are
  \<open>1, 2, 3, ...\<close> in the order of creation: pairwise distinct, strictly increasing,
  never 0.
\<close>

theorem seq_ids_unique_increasing_nonzero:
  assumes "well_formed cs 0" and "length cs < 2 ^ 64"
  shows "\<exists>m_counter seqs.
           run_creations cs (initial_counter, []) = Inr (m_counter, seqs) \<and>
           length seqs = length cs \<and>
           map m_id seqs = map of_nat [1..<Suc (length cs)] \<and>
           distinct (map m_id seqs) \<and>
           sorted_wrt (<) (map m_id seqs) \<and>
           0 \<notin> set (map m_id seqs)"
proof -
  from run_creations_ids[of cs "[]"] assms obtain seqs :: "'a Sequence list" where
    run: "run_creations cs (initial_counter, []) = Inr (of_nat (Suc (length cs)), seqs)"
    and len: "length seqs = length cs"
    and ids: "map m_id seqs = map of_nat [1..<Suc (length cs)]"
    by (auto simp: initial_counter_def)
  have un: "map unat (map m_id seqs) = [1..<Suc (length cs)]"
    unfolding ids by (rule unat_ids[OF assms(2)])
  have "distinct (map unat (map m_id seqs))" unfolding un by simp
  then have d: "distinct (map m_id seqs)" using distinct_map[of unat "map m_id seqs"] by blast
  have "sorted_wrt (<) (map unat (map m_id seqs))"
    unfolding un by (rule sorted_wrt_upt)
  then have s: "sorted_wrt (<) (map m_id seqs)"
    by (simp add: sorted_wrt_map word_less_nat_alt)
  have "0 \<notin> set (map unat (map m_id seqs))" unfolding un set_upt by simp
  then have z: "0 \<notin> set (map m_id seqs)"
    by (metis (no_types, lifting) image_eqI list.set_map unat_0)
  from run len ids d s z show ?thesis by blast
qed

theorem seq_ids_unique_increasing_nonzero_witness:
  "well_formed [Create, Fork 0, Create] 0 \<and> length [Create, Fork 0, Create] < (2::nat) ^ 64 \<and>
   (\<exists>m_counter (seqs :: real Sequence list).
      run_creations [Create, Fork 0, Create] (initial_counter, []) = Inr (m_counter, seqs) \<and>
      map m_id seqs = [1, 2, 3])"
proof -
  have h1: "well_formed [Create, Fork 0, Create] 0" by simp
  have h2: "length [Create, Fork 0, Create] < (2::nat) ^ 64" by simp
  have "map of_nat [1..<Suc (length [Create, Fork 0, Create])] = [1, 2, 3 :: u64]"
    by (simp add: upt_rec)
  with seq_ids_unique_increasing_nonzero[OF h1 h2, where 'a = real] h1 h2 show ?thesis
    by auto
qed

text \<open>
  The bound is exact: after \<open>2^64 - 1\<close> creations the counter is 0, the id of the next
  sequence. In the two older versions of the class the counter starts at 0, the id of
  their first sequence.
\<close>

lemma counter_wraps_to_zero:
  "get_next_sequence_id (of_nat (2 ^ 64 - 1)) = (of_nat (2 ^ 64 - 1), 0)"
  by (simp add: get_next_sequence_id_def)

lemma first_id_v1:
  "m_sequence_id_v1 (fst (Sequence_v1_new initial_counter_v1)) = 0"
  by (simp add: Sequence_v1_new_def get_next_sequence_id_v1_def initial_counter_v1_def)

subsection \<open>Beam search score and finished sequences\<close>

text \<open>
  Claim C9. \<open>get_beam_search_score\<close> is the cumulative log-probability divided by the
  generated length raised to the length penalty (in the arithmetic of \<open>float\<close>, whatever
  it is). \<open>get_finished_sequences\<close> is defined where the comparison of scores orders
  the finished sequences (it does unless a score is not a number), and then returns
  exactly the finished sequences of the group, each as often as it occurs, ordered by
  descending score: no sequence has a smaller score than a later one.
\<close>

theorem beam_search_score_and_finished_sequences:
  fixes g :: "('f::{inverse,ord}) SequenceGroup"
    and to_float :: "nat \<Rightarrow> 'f" and fpow :: "'f \<Rightarrow> 'f \<Rightarrow> 'f"
  defines "score \<equiv> get_beam_search_score to_float fpow (m_sampling_params g)"
  shows "get_beam_search_score to_float fpow sampling_params seq =
           m_cumulative_log_prob seq /
             fpow (to_float (get_generated_len seq)) (length_penalty sampling_params) \<and>
         (strict_weak_ordering (\<lambda>s1 s2. score s1 > score s2) (filter has_finished (m_sequences g))
            \<longrightarrow> (\<exists>finished. get_finished_sequences to_float fpow g = Inr finished)) \<and>
         (\<forall>finished. get_finished_sequences to_float fpow g = Inr finished \<longrightarrow>
            mset finished = mset (filter has_finished (m_sequences g)) \<and>
            sorted_wrt (\<lambda>s1 s2. \<not> score s1 < score s2) finished)"
proof (intro conjI allI impI)
  show "get_beam_search_score to_float fpow sampling_params seq =
          m_cumulative_log_prob seq /
            fpow (to_float (get_generated_len seq)) (length_penalty sampling_params)"
    by (simp add: get_beam_search_score_def get_cumulative_log_probs_def)
next
  assume "strict_weak_ordering (\<lambda>s1 s2. score s1 > score s2) (filter has_finished (m_sequences g))"
  then show "\<exists>finished. get_finished_sequences to_float fpow g = Inr finished"
    by (simp add: get_finished_sequences_def std_sort_def score_def)
next
  fix finished
  assume "get_finished_sequences to_float fpow g = Inr finished"
  then have "std_sort (\<lambda>s1 s2. score s1 > score s2) (filter has_finished (m_sequences g)) = Inr finished"
    by (simp add: get_finished_sequences_def score_def)
  from std_sort_sorted[OF this]
  show "mset finished = mset (filter has_finished (m_sequences g))"
    and "sorted_wrt (\<lambda>s1 s2. \<not> score s1 < score s2) finished"
    by simp_all
qed

theorem beam_search_score_and_finished_sequences_witness:
  "strict_weak_ordering
     (\<lambda>s1 s2. get_beam_search_score real (powr) (m_sampling_params example_beam_group) s1
              > get_beam_search_score real (powr) (m_sampling_params example_beam_group) s2)
     (filter has_finished (m_sequences example_beam_group)) \<and>
   (\<exists>finished. get_finished_sequences real (powr) example_beam_group = Inr finished \<and>
      map m_id finished = [3, 1] \<and>
      mset finished = mset (filter has_finished (m_sequences example_beam_group)))"
proof -
  let ?score = "get_beam_search_score real (powr) (m_sampling_params example_beam_group)"
  have h: "strict_weak_ordering (\<lambda>s1 s2. ?score s1 > ?score s2)
             (filter has_finished (m_sequences example_beam_group))"
    by (rule strict_weak_ordering_key_desc)
  from beam_search_score_and_finished_sequences[of real "(powr)" _ _ example_beam_group] h
  obtain finished where
    run: "get_finished_sequences real (powr) example_beam_group = Inr finished"
    and perm: "mset finished = mset (filter has_finished (m_sequences example_beam_group))"
    by blast
  have "get_finished_sequences real (powr) example_beam_group =
          Inr [m_sequences example_beam_group ! 2, m_sequences example_beam_group ! 0]"
    unfolding get_finished_sequences_def Let_def std_sort_def if_P[OF h]
    by (simp add: example_beam_group_def example_group_eq has_finished_def
        get_beam_search_score_def get_cumulative_log_probs_def get_generated_len_def)
  with run have ids: "map m_id finished = [3, 1]"
    by (simp add: example_beam_group_def)
  show ?thesis
    by (intro conjI exI[of _ finished]) (rule h run ids perm)+
qed

subsection \<open>Results of the engine\<close>

lemma from_sequence_group_finished:
  assumes "group_has_finished_v1 g"
  shows "from_sequence_group g =
           \<lparr>m_request_id_res = m_request_id_v1 g,
            m_generation_ids = map m_generated_ids_v1 (m_sequences_v1 g),
            m_cumulative_logprob = 0\<rparr>"
proof -
  have "length (filter has_finished_v1 (m_sequences_v1 g)) \<le> length (m_sequences_v1 g)"
    by (rule length_filter_le)
  with assms have "num_finished_seqs_v1 g = length (m_sequences_v1 g)"
    by (simp add: group_has_finished_v1_def num_running_seqs_v1_def num_total_seqs_v1_def
        num_finished_seqs_v1_def)
  then show ?thesis
    by (simp add: from_sequence_group_def get_request_id_v1_def get_generated_ids_v1_def
        cong: map_cong)
qed

text \<open>
  Claim C2 is not met by the code. For a finished group \<open>from_sequence_group\<close> lists the
  generated ids of the sequences in the order of \<open>m_sequences\<close>, whatever their scores,
  and sets the cumulative log-probability to \<open>0.0f\<close> (\<open>TODO: track this information\<close>).
  A finished group whose sequences have the scores \<open>-2\<close> and \<open>-1\<close>, in this order, and
  the generated ids \<open>[10]\<close> and \<open>[20]\<close>: the result of \<open>from_sequence_group\<close>, and
  of a \<open>step\<close> that changes nothing, lists \<open>[10]\<close> before \<open>[20]\<close>, in ascending
  order of score, with the log-probability 0.
\<close>

theorem from_sequence_group_storage_order:
  "group_has_finished_v1 example_group_v1 \<and>
   map get_beam_search_scope (m_sequences_v1 example_group_v1) = [- 2, - 1] \<and>
   from_sequence_group example_group_v1 =
     \<lparr>m_request_id_res = 0, m_generation_ids = [[10], [20]], m_cumulative_logprob = 0\<rparr> \<and>
   fst (step id id \<lparr>m_requests = [example_group_v1], m_counter_v1 = 2\<rparr>) =
     [\<lparr>m_request_id_res = 0, m_generation_ids = [[10], [20]], m_cumulative_logprob = 0\<rparr>]"
proof -
  have fin: "group_has_finished_v1 example_group_v1"
    by (simp add: example_group_v1_def group_has_finished_v1_def num_running_seqs_v1_def
        num_total_seqs_v1_def num_finished_seqs_v1_def has_finished_v1_def)
  have res: "from_sequence_group example_group_v1 =
     \<lparr>m_request_id_res = 0, m_generation_ids = [[10], [20]], m_cumulative_logprob = 0\<rparr>"
    unfolding from_sequence_group_finished[OF fin] by (simp add: example_group_v1_def)
  have "map get_beam_search_scope (m_sequences_v1 example_group_v1) = [- 2, - 1]"
    by (simp add: example_group_v1_def get_beam_search_scope_def)
  with fin res show ?thesis by (simp add: step_def)
qed

lemma sorted_by_request_id:
  assumes "std_sort (\<lambda>r1 r2. m_request_id_res r1 < m_request_id_res r2) results = Inr sorted_results"
  shows "sorted (map m_request_id_res sorted_results)"
proof -
  from std_sort_sorted[OF assms]
  have "sorted_wrt (\<lambda>a b. \<not> m_request_id_res b < m_request_id_res a) sorted_results" by simp
  then show ?thesis by (simp add: sorted_map not_less)
qed

lemma generate_loop_returns:
  assumes "\<not> has_unfinished_requests (((\<lambda>e. snd (step tick moved_from e)) ^^ n) e)"
  shows "\<exists>r. generate_loop tick moved_from e results = Some r"
  using assms
proof (induction n arbitrary: e results)
  case 0
  then show ?case by (subst generate_loop.simps) simp
next
  case (Suc n)
  show ?case
  proof (cases "has_unfinished_requests e")
    case False
    then show ?thesis by (subst generate_loop.simps) simp
  next
    case True
    from Suc.prems have
      "\<not> has_unfinished_requests (((\<lambda>e. snd (step tick moved_from e)) ^^ n) (snd (step tick moved_from e)))"
      unfolding funpow_Suc_right by simp
    from Suc.IH[OF this, of "results @ fst (step tick moved_from e)"] True show ?thesis
      by (subst generate_loop.simps) simp
  qed
qed

text \<open>
  Claim C3. Whatever the scheduler, the model and the sampler do in a step, and whatever
  state a moved-from group is left in: when \<open>generate\<close> is called with as many
  sampling parameters as prompts, every result it returns is sorted in ascending order
  of request id; and it does return if after some number of steps no request is
  unfinished.
\<close>

theorem generate_sorted_by_request_id:
  assumes "length prompts = length sampling_params"
  shows "(\<forall>r. generate tick moved_from prompts sampling_params e = Some r \<longrightarrow>
            (\<exists>results e'. r = Inr (results, e') \<and> sorted (map m_request_id_res results))) \<and>
         ((\<exists>n. \<not> has_unfinished_requests
                  (((\<lambda>e. snd (step tick moved_from e)) ^^ n)
                     (add_requests prompts sampling_params e))) \<longrightarrow>
            (\<exists>r. generate tick moved_from prompts sampling_params e = Some r))"
proof (intro conjI allI impI)
  fix r
  assume ret: "generate tick moved_from prompts sampling_params e = Some r"
  with assms obtain results e' where
    loop: "generate_loop tick moved_from (add_requests prompts sampling_params e) [] = Some (results, e')"
    by (auto simp: generate_def split: option.splits)
  have "strict_weak_ordering (\<lambda>r1 r2. m_request_id_res r1 < m_request_id_res r2) results"
    by (rule strict_weak_ordering_key)
  then obtain sorted_results where
    srt: "std_sort (\<lambda>r1 r2. m_request_id_res r1 < m_request_id_res r2) results = Inr sorted_results"
    by (auto simp: std_sort_def)
  from assms ret loop srt have "r = Inr (sorted_results, e')"
    by (simp add: generate_def)
  with sorted_by_request_id[OF srt]
  show "\<exists>results e'. r = Inr (results, e') \<and> sorted (map m_request_id_res results)" by blast
next
  assume "\<exists>n. \<not> has_unfinished_requests
                (((\<lambda>e. snd (step tick moved_from e)) ^^ n) (add_requests prompts sampling_params e))"
  then obtain n where "\<not> has_unfinished_requests
                (((\<lambda>e. snd (step tick moved_from e)) ^^ n) (add_requests prompts sampling_params e))" ..
  from generate_loop_returns[OF this, of "[]"] obtain results e' where
    "generate_loop tick moved_from (add_requests prompts sampling_params e) [] = Some (results, e')"
    by force
  with assms show "\<exists>r. generate tick moved_from prompts sampling_params e = Some r"
    by (simp add: generate_def split: sum.splits)
qed

text \<open>
  An evaluation: two prompts, the request 1 finishing before the request 0. The result
  of the request 1 is reported by both steps, as \<open>_free_finished_groups\<close> leaves the
  finished group in the vector.
\<close>

lemma example_generate:
  "map_option (map_sum id (map m_request_id_res \<circ> fst))
     (generate example_tick id [[1, 2], [3]] [(), ()] example_engine) = Some (Inr [0, 1, 1])"
proof -
  let ?s = "\<lambda>i st ids. \<lparr>m_generated_ids_v1 = ids, m_sequence_id_v1 = i, m_status_v1 = st,
                         m_cumulative_log_prob_v1 = 0 :: real\<rparr>"
  let ?g = "\<lambda>i seq. \<lparr>m_request_id_v1 = i, m_sequences_v1 = [seq], m_sampling_params_v1 = (),
                      m_prompt_ids_v1 = [], m_num_processed_tokens_v1 = 0,
                      m_num_scheduled_tokens_v1 = 0, m_max_content_len_v1 = 0\<rparr>"
  let ?e = "\<lambda>s0 s1. \<lparr>m_requests = [?g 0 s0, ?g 1 s1], m_counter_v1 = 2\<rparr>"
  let ?r = "\<lambda>i. \<lparr>m_request_id_res = i, m_generation_ids = [[42]], m_cumulative_logprob = 0 :: real\<rparr>"
  have fin: "group_has_finished_v1 (?g i (?s j st ids)) \<longleftrightarrow> st = FINISHED_v1" for i j st ids
    by (simp add: group_has_finished_v1_def num_running_seqs_v1_def num_total_seqs_v1_def
        num_finished_seqs_v1_def has_finished_v1_def)
  have e0: "add_requests [[1, 2], [3]] [(), ()] example_engine = ?e (?s 0 WAITING []) (?s 1 WAITING [])"
    by (simp add: add_requests_def add_request_def SequenceGroup_v1_new_def
        SequenceGroup_v1_private_def Sequence_v1_new_def get_next_sequence_id_v1_def
        add_sequence_v1_def example_engine_def initial_counter_v1_def upt_rec)
  have s1: "step example_tick id (?e (?s 0 WAITING []) (?s 1 WAITING [])) =
              ([?r 1], ?e (?s 0 WAITING []) (?s 1 FINISHED_v1 [42]))"
    by (simp add: step_def example_tick_def fin finish_group_def from_sequence_group_finished
        free_finished_groups_def remove_if_def)
  have s2: "step example_tick id (?e (?s 0 WAITING []) (?s 1 FINISHED_v1 [42])) =
              ([?r 0, ?r 1], ?e (?s 0 FINISHED_v1 [42]) (?s 1 FINISHED_v1 [42]))"
    by (simp add: step_def example_tick_def fin finish_group_def from_sequence_group_finished
        free_finished_groups_def remove_if_def)
  have u: "has_unfinished_requests (?e (?s 0 st0 ids0) (?s 1 st1 ids1)) \<longleftrightarrow>
             st0 \<noteq> FINISHED_v1 \<or> st1 \<noteq> FINISHED_v1" for st0 st1 ids0 ids1
    by (simp add: has_unfinished_requests_def fin)
  have l3: "generate_loop example_tick id (?e (?s 0 FINISHED_v1 [42]) (?s 1 FINISHED_v1 [42])) [?r 1, ?r 0, ?r 1] =
              Some ([?r 1, ?r 0, ?r 1], ?e (?s 0 FINISHED_v1 [42]) (?s 1 FINISHED_v1 [42]))"
    by (subst generate_loop.simps) (simp add: u)
  have l2: "generate_loop example_tick id (?e (?s 0 WAITING []) (?s 1 FINISHED_v1 [42])) [?r 1] =
              Some ([?r 1, ?r 0, ?r 1], ?e (?s 0 FINISHED_v1 [42]) (?s 1 FINISHED_v1 [42]))"
    by (subst generate_loop.simps) (simp add: u s2 l3)
  have l1: "generate_loop example_tick id (?e (?s 0 WAITING []) (?s 1 WAITING [])) [] =
              Some ([?r 1, ?r 0, ?r 1], ?e (?s 0 FINISHED_v1 [42]) (?s 1 FINISHED_v1 [42]))"
    by (subst generate_loop.simps) (simp add: u s1 l2)
  have srt: "std_sort (\<lambda>r1 r2. m_request_id_res r1 < m_request_id_res r2) [?r 1, ?r 0, ?r 1] =
               Inr [?r 0, ?r 1, ?r 1]"
    by (simp add: std_sort_def strict_weak_ordering_key)
  show ?thesis
    by (simp add: generate_def e0 l1 srt)
qed

theorem generate_sorted_by_request_id_witness:
  "length [[1, 2], [3 :: 64 word]] = length [(), ()] \<and>
   (\<exists>results e'. generate example_tick id [[1, 2], [3]] [(), ()] example_engine
                    = Some (Inr (results, e')) \<and>
      map m_request_id_res results = [0, 1, 1] \<and>
      sorted (map m_request_id_res results))"
proof -
  have len: "length [[1, 2], [3 :: 64 word]] = length [(), ()]" by simp
  from example_generate obtain r where
    r: "generate example_tick id [[1, 2], [3]] [(), ()] example_engine = Some r"
    by blast
  from generate_sorted_by_request_id[OF len, of example_tick id example_engine] r
  obtain results e' where
    res: "r = Inr (results, e')" "sorted (map m_request_id_res results)"
    by blast
  from example_generate r res have ids: "map m_request_id_res results = [0, 1, 1]"
    by simp
  have run: "generate example_tick id [[1, 2], [3]] [(), ()] example_engine = Some (Inr (results, e'))"
    using r res(1) by simp
  show ?thesis
    by (intro conjI exI[of _ results] exI[of _ e']) (rule len run ids res(2))+
qed

end
